theory Spec2Isabelle
  imports Main "HOL-Library.Sublist" "HOL-Library.Multiset" "HOL-Library.Word"
begin

section \<open>Strings and errors\<close>

text \<open>
  Go strings are byte sequences; they are modelled as \<open>string\<close> (a list of \<open>char\<close>, one
  per byte). A Go \<open>error\<close> value is either a plain message (\<open>errors.New\<close>,
  \<open>fmt.Errorf\<close> without \<open>%w\<close>) or a message together with the error it wraps
  (\<open>fmt.Errorf\<close> with \<open>%w\<close>).
\<close>

datatype error = errorString string | wrapError string error

fun Error :: "error \<Rightarrow> string" where
  "Error (errorString s) = s"
| "Error (wrapError s e) = s"

fun Unwrap :: "error \<Rightarrow> error option" where
  "Unwrap (errorString s) = None"
| "Unwrap (wrapError s e) = Some e"

definition errors_New :: "string \<Rightarrow> error" where
  "errors_New s = errorString s"

text \<open>\<open>strings.Contains(s, substr)\<close>: some suffix of \<open>s\<close> starts with \<open>substr\<close>.\<close>

fun Contains :: "string \<Rightarrow> string \<Rightarrow> bool" where
  "Contains [] substr = (substr = [])"
| "Contains (c # cs) substr = (prefix substr (c # cs) \<or> Contains cs substr)"

text \<open>
  \<open>strings.ReplaceAll(s, old, new)\<close> for a non-empty \<open>old\<close>: the non-overlapping
  occurrences of \<open>old\<close> are replaced from left to right. (The only call site passes
  a one-byte \<open>old\<close>; an empty \<open>old\<close> is left alone here.)
\<close>

function ReplaceAll :: "string \<Rightarrow> string \<Rightarrow> string \<Rightarrow> string" where
  "ReplaceAll [] old new = []"
| "ReplaceAll (c # cs) old new =
     (if old \<noteq> [] \<and> prefix old (c # cs)
      then new @ ReplaceAll (drop (length old) (c # cs)) old new
      else c # ReplaceAll cs old new)"
  by pat_completeness auto
termination
  by (relation "measure (\<lambda>(s, old, new). length s)") (auto simp: neq_Nil_conv)

text \<open>\<open>strings.Join(elems, sep)\<close>.\<close>

fun Join :: "string list \<Rightarrow> string \<Rightarrow> string" where
  "Join [] sep = []"
| "Join [a] sep = a"
| "Join (a # b # bs) sep = a @ sep @ Join (b # bs) sep"

text \<open>The number of positions of \<open>s\<close> at which \<open>substr\<close> occurs.\<close>

fun occurrences :: "string \<Rightarrow> string \<Rightarrow> nat" where
  "occurrences [] substr = (if substr = [] then 1 else 0)"
| "occurrences (c # cs) substr =
     (if prefix substr (c # cs) then 1 else 0) + occurrences cs substr"

section \<open>Decimal text and timestamps\<close>

text \<open>The decimal text of an integer (\<open>%d\<close>, \<open>strconv.Itoa\<close>).\<close>

function udigits :: "nat \<Rightarrow> string" where
  "udigits n = (if n < 10 then [char_of (48 + n)]
                else udigits (n div 10) @ [char_of (48 + n mod 10)])"
  by pat_completeness auto
termination
  by (relation "measure id") auto

declare udigits.simps [simp del]

definition Itoa :: "int \<Rightarrow> string" where
  "Itoa i = (if i < 0 then CHR ''-'' # udigits (nat (- i)) else udigits (nat i))"

text \<open>
  Go's \<open>time\<close> package is outside the program. An instant is the number of nanoseconds
  since the epoch; a \<open>time.Duration\<close> is an \<open>int64\<close> count of nanoseconds, so the
  negation \<open>-minUpdated\<close> is taken in 64 bits. The conversion of an instant to the
  calendar date, clock time and zone offset of the local time zone is a parameter of the
  model (\<open>local\<close> below); the layout \<open>time.RFC3339\<close>, that is
  \<^verbatim>\<open>2006-01-02T15:04:05Z07:00\<close>, is written out.
\<close>

type_synonym Duration = "64 word"

definition Add :: "int \<Rightarrow> Duration \<Rightarrow> int" where
  "Add t d = t + sint d"

record civil =
  year :: int
  month :: nat
  day :: nat
  hour :: nat
  minute :: nat
  second :: nat
  offset :: int

text \<open>\<open>appendInt\<close>: a sign if negative, then the digits padded with zeros to \<open>width\<close>.\<close>

definition appendInt :: "int \<Rightarrow> nat \<Rightarrow> string" where
  "appendInt x width =
    (let ds = udigits (nat \<bar>x\<bar>)
     in (if x < 0 then ''-'' else []) @ replicate (width - length ds) CHR ''0'' @ ds)"

text \<open>The zone: \<open>Z\<close> for offset zero, else sign, hours, colon, minutes (Go divides
  truncating towards zero).\<close>

definition appendZone :: "int \<Rightarrow> string" where
  "appendZone off =
    (if off = 0 then ''Z''
     else let zone = (if off < 0 then - ((- off) div 60) else off div 60)
          in (if zone < 0 then ''-'' else ''+'')
             @ appendInt (\<bar>zone\<bar> div 60) 2 @ '':'' @ appendInt (\<bar>zone\<bar> mod 60) 2)"

definition Format_RFC3339 :: "civil \<Rightarrow> string" where
  "Format_RFC3339 t =
     appendInt (year t) 4 @ ''-'' @ appendInt (int (month t)) 2 @ ''-''
     @ appendInt (int (day t)) 2 @ ''T'' @ appendInt (int (hour t)) 2 @ '':''
     @ appendInt (int (minute t)) 2 @ '':'' @ appendInt (int (second t)) 2
     @ appendZone (offset t)"

section \<open>The query builder\<close>

text \<open>
  \<open>makeQuery\<close> reads the clock: \<open>now\<close> is the value of \<open>time.Now()\<close> and \<open>local\<close>
  the local calendar.
\<close>

definition makeQuery ::
  "int \<Rightarrow> (int \<Rightarrow> civil) \<Rightarrow> string \<Rightarrow> bool \<Rightarrow> bool \<Rightarrow> bool \<Rightarrow> Duration \<Rightarrow> error + string" where
  "makeQuery now local query0 includeArchived includeClosed includeLocked minUpdated =
    (let query = ReplaceAll query0 [CHR 0x0A] '' '';
         parts = [query]
     in (case (if \<not> includeArchived
               then if Contains query ''archived:true''
                    then Inl (errors_New ''archived:true requires --include-archived'')
                    else Inr (parts @ [''archived:false''])
               else if Contains query ''archived:false''
                    then Inl (errors_New ''archived:false conflicts with --include-archived'')
                    else Inr parts) of
           Inl err \<Rightarrow> Inl err
         | Inr parts \<Rightarrow>
        (case (if \<not> includeClosed
               then if Contains query ''is:closed''
                    then Inl (errors_New ''is:closed requires --include-closed'')
                    else Inr (parts @ [''is:open''])
               else if Contains query ''is:open''
                    then Inl (errors_New ''is:open conflicts with --include-closed'')
                    else Inr parts) of
           Inl err \<Rightarrow> Inl err
         | Inr parts \<Rightarrow>
        (case (if \<not> includeLocked
               then if Contains query ''is:locked''
                    then Inl (errors_New ''is:locked requires --include-locked'')
                    else Inr (parts @ [''is:unlocked''])
               else if Contains query ''is:unlocked''
                    then Inl (errors_New ''is:unlocked conflicts with --include-locked'')
                    else Inr parts) of
           Inl err \<Rightarrow> Inl err
         | Inr parts \<Rightarrow>
             Inr (Join (if minUpdated \<noteq> 0
                        then parts @ [''updated:<='' @ Format_RFC3339 (local (Add now (- minUpdated)))]
                        else parts) '' '')))))"

section \<open>Parsing an issue URL\<close>

text \<open>
  \<open>parseHTMLURL\<close> matches its argument against the regular expression
  \<^verbatim>\<open>.+/(.+)/(.+)/(issues|pull)/(\d+)$\<close>. The expressions this pattern is made of are
  the datatype \<open>regex\<close>; \<open>rmatch\<close> is a backtracking matcher with the preference
  order of Go's \<open>regexp\<close> package (leftmost match, a greedy \<open>+\<close> tries the longer
  repetition first, an alternation its left branch first). \<open>.\<close> is any character but
  a line feed, \<open>\d\<close> an ASCII digit, \<open>$\<close> the end of the text. The pattern's groups
  are cut at \<open>/\<close> bytes only, so matching bytes and matching UTF-8 runes agree.
\<close>

datatype cclass = AnyCharNotNL | Digit | Lit char

fun in_class :: "cclass \<Rightarrow> char \<Rightarrow> bool" where
  "in_class AnyCharNotNL c = (c \<noteq> CHR 0x0A)"
| "in_class Digit c = ((48::nat) \<le> of_char c \<and> of_char c \<le> (57::nat))"
| "in_class (Lit d) c = (c = d)"

datatype regex =
    Char cclass
  | Plus cclass
  | Concat regex regex
  | Alternate regex regex
  | Capture nat regex
  | EndText
  | EmptyMatch

text \<open>One or more characters of a class, then the continuation; the longest run first.\<close>

fun plus_match :: "cclass \<Rightarrow> string \<Rightarrow> (string \<Rightarrow> 'a option) \<Rightarrow> 'a option" where
  "plus_match cl [] k = None"
| "plus_match cl (c # cs) k =
     (if in_class cl c
      then (case plus_match cl cs k of Some r \<Rightarrow> Some r | None \<Rightarrow> k cs)
      else None)"

fun rmatch ::
  "regex \<Rightarrow> string \<Rightarrow> string list \<Rightarrow> (string \<Rightarrow> string list \<Rightarrow> string list option)
     \<Rightarrow> string list option" where
  "rmatch (Char cl) s caps k =
     (case s of [] \<Rightarrow> None | c # cs \<Rightarrow> if in_class cl c then k cs caps else None)"
| "rmatch (Plus cl) s caps k = plus_match cl s (\<lambda>s'. k s' caps)"
| "rmatch (Concat a b) s caps k = rmatch a s caps (\<lambda>s' caps'. rmatch b s' caps' k)"
| "rmatch (Alternate a b) s caps k =
     (case rmatch a s caps k of Some r \<Rightarrow> Some r | None \<Rightarrow> rmatch b s caps k)"
| "rmatch (Capture n a) s caps k =
     rmatch a s caps (\<lambda>s' caps'. k s' (caps'[n := take (length s - length s') s]))"
| "rmatch EndText s caps k = (if s = [] then k s caps else None)"
| "rmatch EmptyMatch s caps k = k s caps"

text \<open>
  \<open>FindStringSubmatch\<close>: the match that starts leftmost, as the list of the text of
  the whole match (index 0) and of the \<open>n\<close> groups; \<open>None\<close> is Go's \<open>nil\<close>.
\<close>

fun search :: "regex \<Rightarrow> nat \<Rightarrow> string \<Rightarrow> string list option" where
  "search re n [] = rmatch (Capture 0 re) [] (replicate (Suc n) []) (\<lambda>s' caps. Some caps)"
| "search re n (c # cs) =
     (case rmatch (Capture 0 re) (c # cs) (replicate (Suc n) []) (\<lambda>s' caps. Some caps) of
        Some m \<Rightarrow> Some m
      | None \<Rightarrow> search re n cs)"

fun NumSubexp :: "regex \<Rightarrow> nat" where
  "NumSubexp (Concat a b) = NumSubexp a + NumSubexp b"
| "NumSubexp (Alternate a b) = NumSubexp a + NumSubexp b"
| "NumSubexp (Capture n a) = Suc (NumSubexp a)"
| "NumSubexp r = 0"

definition FindStringSubmatch :: "regex \<Rightarrow> string \<Rightarrow> string list option" where
  "FindStringSubmatch re s = search re (NumSubexp re) s"

fun literal :: "string \<Rightarrow> regex" where
  "literal [] = EmptyMatch"
| "literal [c] = Char (Lit c)"
| "literal (c # cs) = Concat (Char (Lit c)) (literal cs)"

definition htmlurl_re :: regex where
  "htmlurl_re =
     Concat (Plus AnyCharNotNL)
    (Concat (Char (Lit CHR ''/''))
    (Concat (Capture 1 (Plus AnyCharNotNL))
    (Concat (Char (Lit CHR ''/''))
    (Concat (Capture 2 (Plus AnyCharNotNL))
    (Concat (Char (Lit CHR ''/''))
    (Concat (Capture 3 (Alternate (literal ''issues'') (literal ''pull'')))
    (Concat (Char (Lit CHR ''/''))
    (Concat (Capture 4 (Plus Digit))
     EndText))))))))"

text \<open>
  \<open>strconv.Atoi\<close> on a 64-bit platform. Its error is a \<open>*strconv.NumError\<close>, which
  wraps \<open>strconv.ErrSyntax\<close> or \<open>strconv.ErrRange\<close>. \<open>strconv.Quote\<close>, used in its
  message, is modelled for text without quotes, backslashes or control characters.
\<close>

definition Quote :: "string \<Rightarrow> string" where
  "Quote s = [CHR 0x22] @ s @ [CHR 0x22]"

definition digit_value :: "char \<Rightarrow> int" where
  "digit_value c = int (of_char c) - 48"

definition decimal :: "string \<Rightarrow> int" where
  "decimal ds = foldl (\<lambda>v c. 10 * v + digit_value c) 0 ds"

definition Atoi :: "string \<Rightarrow> error + int" where
  "Atoi s =
    (let neg = (s \<noteq> [] \<and> hd s = CHR ''-'');
         ds = (if s \<noteq> [] \<and> (hd s = CHR ''+'' \<or> hd s = CHR ''-'') then tl s else s)
     in if ds = [] \<or> \<not> list_all (in_class Digit) ds
        then Inl (wrapError (''strconv.Atoi: parsing '' @ Quote s @ '': invalid syntax'')
                    (errorString ''invalid syntax''))
        else let n = (if neg then - decimal ds else decimal ds)
             in if n < - (2 ^ 63) \<or> 2 ^ 63 - 1 < n
                then Inl (wrapError
                       (''strconv.Atoi: parsing '' @ Quote s @ '': value out of range'')
                       (errorString ''value out of range''))
                else Inr n)"

definition parseHTMLURL :: "string \<Rightarrow> error + (string \<times> string \<times> int)" where
  "parseHTMLURL url =
    (case FindStringSubmatch htmlurl_re url of
       None \<Rightarrow> Inl (errorString (''failed to parse: '' @ url))
     | Some mat \<Rightarrow>
        (case Atoi (mat ! 4) of
           Inl err \<Rightarrow> Inl err
         | Inr n \<Rightarrow> Inr (mat ! 1, mat ! 2, n)))"

section \<open>The batch runner\<close>

text \<open>
  \<open>github.Issue\<close> belongs to the client library; \<open>run\<close> reads its \<open>HTMLURL\<close> and
  \<open>Title\<close> and hands the whole value to the comment-producing function.
\<close>

record issue =
  HTMLURL :: string
  Title :: string
  State :: string
  User :: string
  Assignees :: "string list"
  Labels :: "string list"

record meta =
  Number :: int
  Org :: string
  Repo :: string
  Issue :: issue

text \<open>
  The \<open>client\<close> interface. A client has a state of its own (type \<open>'c\<close>) which every
  call may read and change.
\<close>

record 'c client =
  CreateComment :: "'c \<Rightarrow> string \<Rightarrow> string \<Rightarrow> int \<Rightarrow> string \<Rightarrow> error option \<times> 'c"
  FindIssuesWithOrg :: "'c \<Rightarrow> string \<Rightarrow> string \<Rightarrow> string \<Rightarrow> bool \<Rightarrow> (error + issue list) \<times> 'c"

type_synonym commenter = "meta \<Rightarrow> string \<times> error option"

text \<open>
  What a run does to the outside world, in order: the lines it logs and the calls it
  makes on the client and on the comment-producing function.
\<close>

datatype event =
    LogPrint string
  | FindIssuesWithOrg_call string string string bool
  | commenter_call meta
  | CreateComment_call string string int string

record 'c runstate =
  cl :: 'c
  problems :: "string list"
  trace :: "event list"

definition log :: "string \<Rightarrow> 'c runstate \<Rightarrow> 'c runstate" where
  "log msg st = st\<lparr>trace := trace st @ [LogPrint msg]\<rparr>"

text \<open>\<open>log.Print(msg)\<close> followed by \<open>problems = append(problems, msg)\<close>.\<close>

definition record_problem :: "string \<Rightarrow> 'c runstate \<Rightarrow> 'c runstate" where
  "record_problem msg st = (log msg st)\<lparr>problems := problems st @ [msg]\<rparr>"

text \<open>The body of the loop of \<open>run\<close> for one item \<open>i\<close>.\<close>

definition process_item :: "'c client \<Rightarrow> commenter \<Rightarrow> issue \<Rightarrow> 'c runstate \<Rightarrow> 'c runstate" where
  "process_item c commenter i st0 =
    (let st1 = log (''Matched '' @ HTMLURL i @ '' ('' @ Title i @ '')'') st0;
         (org, repo, number, st2) =
           (case parseHTMLURL (HTMLURL i) of
              Inl err \<Rightarrow>
                ([], [], 0,
                 record_problem (''Failed to parse '' @ HTMLURL i @ '': '' @ Error err) st1)
            | Inr (org, repo, number) \<Rightarrow> (org, repo, number, st1));
         m = \<lparr>Number = number, Org = org, Repo = repo, Issue = i\<rparr>;
         st3 = st2\<lparr>trace := trace st2 @ [commenter_call m]\<rparr>
     in (case commenter m of
           (comment, Some err) \<Rightarrow>
             record_problem (''Failed to create comment for '' @ org @ ''/'' @ repo @ ''#''
                               @ Itoa number @ '': '' @ Error err) st3
         | (comment, None) \<Rightarrow>
            (let (res, cl') = CreateComment c (cl st3) org repo number comment;
                 st4 = st3\<lparr>cl := cl',
                           trace := trace st3 @ [CreateComment_call org repo number comment]\<rparr>
             in (case res of
                   Some err \<Rightarrow>
                     record_problem (''Failed to apply comment to '' @ org @ ''/'' @ repo @ ''#''
                                       @ Itoa number @ '': '' @ Error err) st4
                 | None \<Rightarrow> log (''Commented on '' @ HTMLURL i) st4))))"

text \<open>
  \<open>for n, i := range issues\<close>: \<open>n\<close> is the index of the item at the head of the list
  that is left, \<open>len\<close> is \<open>len(issues)\<close>.
\<close>

fun range_issues ::
  "'c client \<Rightarrow> commenter \<Rightarrow> int \<Rightarrow> nat \<Rightarrow> nat \<Rightarrow> issue list \<Rightarrow> 'c runstate \<Rightarrow> 'c runstate" where
  "range_issues c commenter ceiling len n [] st = st"
| "range_issues c commenter ceiling len n (i # rest) st =
     (if ceiling > 0 \<and> int n = ceiling
      then log (''Stopping at --ceiling='' @ Itoa (int n) @ '' of '' @ Itoa (int len)
                  @ '' results'') st
      else range_issues c commenter ceiling len (Suc n) rest (process_item c commenter i st))"

text \<open>
  \<open>rand.Shuffle(n, swap)\<close> is the Fisher-Yates loop \<open>for i := n - 1; i > 0; i--\<close> with
  \<open>j\<close> drawn from \<open>[0, i]\<close> and \<open>swap(i, j)\<close>. The draws belong to Go's random source:
  \<open>rnd i\<close> is the number drawn at step \<open>i\<close>, reduced into \<open>[0, i]\<close>, so that every
  \<open>rnd\<close> is an outcome the library can produce and every outcome is some \<open>rnd\<close>.
\<close>

fun shuffle_loop :: "(nat \<Rightarrow> nat) \<Rightarrow> nat \<Rightarrow> 'a list \<Rightarrow> 'a list" where
  "shuffle_loop rnd 0 xs = xs"
| "shuffle_loop rnd (Suc i) xs =
     (let j = rnd (Suc i) mod (Suc i + 1)
      in shuffle_loop rnd i (xs[Suc i := xs ! j, j := xs ! Suc i]))"

definition Shuffle :: "(nat \<Rightarrow> nat) \<Rightarrow> 'a list \<Rightarrow> 'a list" where
  "Shuffle rnd xs = shuffle_loop rnd (length xs - 1) xs"

definition run ::
  "'c client \<Rightarrow> (nat \<Rightarrow> nat) \<Rightarrow> 'c \<Rightarrow> string \<Rightarrow> string \<Rightarrow> string \<Rightarrow> bool \<Rightarrow> bool \<Rightarrow> commenter \<Rightarrow> int
     \<Rightarrow> error option \<times> 'c runstate" where
  "run c rnd cl0 org query sort' asc random commenter ceiling =
    (let st0 = log (''Searching: '' @ query) \<lparr>cl = cl0, problems = [], trace = []\<rparr>;
         (res, cl1) = FindIssuesWithOrg c cl0 org query sort' asc;
         st1 = st0\<lparr>cl := cl1,
                   trace := trace st0 @ [FindIssuesWithOrg_call org query sort' asc]\<rparr>
     in (case res of
           Inl err \<Rightarrow> (Some (wrapError (''search failed: '' @ Error err) err), st1)
         | Inr found \<Rightarrow>
            (let st2 = log (''Found '' @ Itoa (int (length found)) @ '' matches'') st1;
                 issues = (if random then Shuffle rnd found else found);
                 st3 = range_issues c commenter ceiling (length issues) 0 issues st2
             in if length (problems st3) > 0
                then (Some (errorString (''encoutered '' @ Itoa (int (length (problems st3)))
                              @ '' failures: ['' @ Join (problems st3) '' '' @ '']'')), st3)
                else (None, st3))))"

text \<open>
  \<open>makeCommenter\<close>. The template engine is Go's \<open>text/template\<close>: \<open>parse\<close> stands for
  \<open>template.New("comment").Parse\<close> followed by \<open>Execute\<close> into a buffer, and a parse
  error is the panic of \<open>template.Must\<close> (\<open>Inl\<close>).
\<close>

definition makeCommenter ::
  "(string \<Rightarrow> error + commenter) \<Rightarrow> string \<Rightarrow> bool \<Rightarrow> error + commenter" where
  "makeCommenter parse comment useTemplate =
    (if \<not> useTemplate then Inr (\<lambda>_. (comment, None))
     else (case parse comment of Inl err \<Rightarrow> Inl err | Inr t \<Rightarrow> Inr (\<lambda>m. t m)))"

text \<open>
  A client for running examples: its search answers \<open>found\<close>, its comment creation
  answers \<open>reply number\<close>, and its state is the list of the comments it was given.
\<close>

definition recording_client ::
  "(error + issue list) \<Rightarrow> (int \<Rightarrow> error option) \<Rightarrow> (string \<times> string \<times> int \<times> string) list client" where
  "recording_client found reply =
    \<lparr>CreateComment = (\<lambda>s org repo number comment. (reply number, s @ [(org, repo, number, comment)])),
     FindIssuesWithOrg = (\<lambda>s org query sort' asc. (found, s))\<rparr>"

definition mk_issue :: "string \<Rightarrow> string \<Rightarrow> issue" where
  "mk_issue url title =
    \<lparr>HTMLURL = url, Title = title, State = ''open'', User = ''alice'', Assignees = [], Labels = []\<rparr>"

section \<open>Auxiliary notions for the properties\<close>

text \<open>What \<open>strings.ReplaceAll(query, "\n", " ")\<close> does to one byte.\<close>

definition nl_to_space :: "char \<Rightarrow> char" where
  "nl_to_space c = (if c = CHR 0x0A then CHR '' '' else c)"

definition digit_chars :: "char set" where
  "digit_chars = set ''0123456789''"

text \<open>The bytes an RFC 3339 timestamp of second precision is made of.\<close>

definition rfc3339_chars :: "char set" where
  "rfc3339_chars = set ''0123456789-+:TZ''"

text \<open>
  An example of a calendar: UTC, by the usual conversion of a day number to a date of
  the proleptic Gregorian calendar.
\<close>

definition utc :: "int \<Rightarrow> civil" where
  "utc t =
    (let secs = t div 1000000000;
         days = secs div 86400;
         rem = secs mod 86400;
         z = days + 719468;
         era = z div 146097;
         doe = z mod 146097;
         yoe = (doe - doe div 1460 + doe div 36524 - doe div 146096) div 365;
         doy = doe - (365 * yoe + yoe div 4 - yoe div 100);
         mp = (5 * doy + 2) div 153;
         d = doy - (153 * mp + 2) div 5 + 1;
         m = (if mp < 10 then mp + 3 else mp - 9);
         y = yoe + era * 400 + (if m \<le> 2 then 1 else 0)
     in \<lparr>year = y, month = nat m, day = nat d, hour = nat (rem div 3600),
         minute = nat (rem mod 3600 div 60), second = nat (rem mod 60), offset = 0\<rparr>)"

text \<open>
  Readings of a trace: the items handed to the comment-producing function (one call per
  item visited), the arguments of the calls of \<open>CreateComment\<close>, and the lines logged.
\<close>

fun visited :: "event list \<Rightarrow> issue list" where
  "visited [] = []"
| "visited (commenter_call m # es) = Issue m # visited es"
| "visited (e # es) = visited es"

fun created :: "event list \<Rightarrow> (string \<times> string \<times> int \<times> string) list" where
  "created [] = []"
| "created (CreateComment_call org repo number comment # es) =
     (org, repo, number, comment) # created es"
| "created (e # es) = created es"

fun logged :: "event list \<Rightarrow> string list" where
  "logged [] = []"
| "logged (LogPrint msg # es) = msg # logged es"
| "logged (e # es) = logged es"

text \<open>The logged lines that report a failure: each of them starts with \<open>Failed to\<close>.\<close>

definition failures :: "event list \<Rightarrow> string list" where
  "failures es = filter (prefix ''Failed to '') (logged es)"

text \<open>The state in which \<open>run\<close> enters its loop after a search that found \<open>found\<close>.\<close>

definition searched ::
  "'c \<Rightarrow> string \<Rightarrow> string \<Rightarrow> string \<Rightarrow> bool \<Rightarrow> issue list \<Rightarrow> 'c runstate" where
  "searched cl1 org query sort' asc found =
    \<lparr>cl = cl1, problems = [],
     trace = [LogPrint (''Searching: '' @ query), FindIssuesWithOrg_call org query sort' asc,
              LogPrint (''Found '' @ Itoa (int (length found)) @ '' matches'')]\<rparr>"

text \<open>The error \<open>run\<close> returns for a list of recorded failures.\<close>

definition aggregate :: "string list \<Rightarrow> error option" where
  "aggregate ps =
    (if ps = [] then None
     else Some (errorString (''encoutered '' @ Itoa (int (length ps)) @ '' failures: [''
                               @ Join ps '' '' @ '']'')))"

text \<open>The line logged when the loop stops at the ceiling.\<close>

definition stopping :: "int \<Rightarrow> nat \<Rightarrow> string" where
  "stopping ceiling len =
     ''Stopping at --ceiling='' @ Itoa ceiling @ '' of '' @ Itoa (int len) @ '' results''"

text \<open>
  Values for examples: the comment-producing function that \<open>makeCommenter\<close> returns
  without \<open>--template\<close>, a template engine that rejects every template, replies of
  \<open>CreateComment\<close>, and two random sources (the one that always draws 0, and the one that draws \<open>i + 1\<close> at step \<open>i\<close>).
\<close>

definition literal_commenter :: "string \<Rightarrow> commenter" where
  "literal_commenter comment m = (comment, None)"

definition no_templates :: "string \<Rightarrow> error + commenter" where
  "no_templates src = Inl (errorString ''template: comment:1: unexpected EOF'')"

definition always_ok :: "int \<Rightarrow> error option" where
  "always_ok number = None"

definition reject_zero :: "int \<Rightarrow> error option" where
  "reject_zero number = (if number = 0 then Some (errorString ''404 Not Found'') else None)"

definition draw_zero :: "nat \<Rightarrow> nat" where
  "draw_zero i = 0"

definition draw_succ :: "nat \<Rightarrow> nat" where
  "draw_succ i = Suc i"

definition example_issues :: "issue list" where
  "example_issues =
    [mk_issue ''https://github.com/kubernetes/test-infra/issues/101'' ''flaky job'',
     mk_issue ''https://github.com/kubernetes/test-infra/pull/102'' ''deflake job'',
     mk_issue ''https://github.com/kubernetes/kubernetes/issues/103'' ''stale'']"

definition malformed_issue :: issue where
  "malformed_issue = mk_issue ''https://github.com/kubernetes/test-infra/issues/'' ''cut short''"

section \<open>Properties of the query builder\<close>

subsection \<open>Substrings of joined text\<close>

lemma prefix_append_notin:
  "c \<notin> set n \<Longrightarrow> prefix n (u @ c # b) = prefix n u"
  by (auto simp: prefix_append prefix_Cons)

lemma Contains_Nil_needle [simp]: "Contains s [] = True"
  by (induction s) auto

lemma Contains_append_sep:
  "c \<notin> set n \<Longrightarrow> n \<noteq> [] \<Longrightarrow> Contains (a @ c # b) n = (Contains a n \<or> Contains b n)"
proof (induction a)
  case Nil
  then show ?case by (cases n) (auto simp: prefix_Cons)
next
  case (Cons x a)
  have "prefix n (x # a @ c # b) = prefix n (x # a)"
    using prefix_append_notin [OF Cons.prems(1), of "x # a" b] by simp
  with Cons show ?case by auto
qed

lemma Contains_Join:
  "CHR '' '' \<notin> set n \<Longrightarrow> n \<noteq> [] \<Longrightarrow> ps \<noteq> [] \<Longrightarrow>
     Contains (Join ps '' '') n = (\<exists>p \<in> set ps. Contains p n)"
proof (induction ps "'' ''" rule: Join.induct)
  case 1 then show ?case by simp
next
  case (2 a) then show ?case by simp
next
  case (3 a b bs)
  then show ?case using Contains_append_sep [of "CHR '' ''" n a "Join (b # bs) '' ''"] by simp
qed

lemma not_Contains_head: "c \<notin> set s \<Longrightarrow> \<not> Contains s (c # n)"
  by (induction s) (auto simp: prefix_Cons)

subsection \<open>Line feeds become spaces\<close>

lemma ReplaceAll_newline: "ReplaceAll s [CHR 0x0A] '' '' = map nl_to_space s"
  by (induction s) (auto simp: nl_to_space_def)

lemma prefix_map_nl:
  "CHR 0x0A \<notin> set n \<Longrightarrow> CHR '' '' \<notin> set n \<Longrightarrow> prefix n (map nl_to_space s) = prefix n s"
proof (induction n arbitrary: s)
  case Nil then show ?case by simp
next
  case (Cons a n)
  then show ?case by (cases s) (auto simp: nl_to_space_def)
qed

lemma Contains_map_nl:
  "CHR 0x0A \<notin> set n \<Longrightarrow> CHR '' '' \<notin> set n \<Longrightarrow> Contains (map nl_to_space s) n = Contains s n"
proof (induction s)
  case Nil then show ?case by simp
next
  case (Cons c s)
  then show ?case using prefix_map_nl [of n "c # s"] by simp
qed

lemma Contains_normalised:
  "Contains (map nl_to_space raw) ''archived:true'' = Contains raw ''archived:true''"
  "Contains (map nl_to_space raw) ''archived:false'' = Contains raw ''archived:false''"
  "Contains (map nl_to_space raw) ''is:closed'' = Contains raw ''is:closed''"
  "Contains (map nl_to_space raw) ''is:open'' = Contains raw ''is:open''"
  "Contains (map nl_to_space raw) ''is:locked'' = Contains raw ''is:locked''"
  "Contains (map nl_to_space raw) ''is:unlocked'' = Contains raw ''is:unlocked''"
  by (simp_all add: Contains_map_nl)

subsection \<open>The bytes of a timestamp\<close>

lemma digit_char: "k < 10 \<Longrightarrow> char_of (48 + k :: nat) \<in> digit_chars"
proof -
  assume "k < 10"
  then have "k \<in> {0, 1, 2, 3, 4, 5, 6, 7, 8, 9}" by auto
  then show ?thesis
    unfolding digit_chars_def by (elim insertE emptyE; hypsubst; code_simp)
qed

lemma udigits_chars: "set (udigits n) \<subseteq> digit_chars"
proof (induction n rule: udigits.induct)
  case (1 n)
  show ?case
  proof (cases "n < 10")
    case True
    then show ?thesis using digit_char [of n] by (subst udigits.simps) simp
  next
    case False
    have "n mod 10 < 10" by simp
    then have "char_of (48 + n mod 10) \<in> digit_chars" by (rule digit_char)
    with False 1 show ?thesis by (subst udigits.simps) simp
  qed
qed

lemma digit_sub: "digit_chars \<subseteq> rfc3339_chars"
  by (simp add: digit_chars_def rfc3339_chars_def)

lemma appendInt_chars: "set (appendInt x w) \<subseteq> rfc3339_chars"
proof -
  have "set (udigits (nat \<bar>x\<bar>)) \<subseteq> rfc3339_chars"
    using udigits_chars digit_sub by blast
  moreover have "CHR ''-'' \<in> rfc3339_chars" "CHR ''0'' \<in> rfc3339_chars"
    by (simp_all add: rfc3339_chars_def)
  ultimately show ?thesis
    by (auto simp: appendInt_def Let_def)
qed

lemma appendZone_chars: "set (appendZone off) \<subseteq> rfc3339_chars"
proof -
  have "CHR ''-'' \<in> rfc3339_chars" "CHR ''+'' \<in> rfc3339_chars" "CHR '':'' \<in> rfc3339_chars"
    "CHR ''Z'' \<in> rfc3339_chars"
    by (simp_all add: rfc3339_chars_def)
  then show ?thesis
    using appendInt_chars by (auto simp: appendZone_def Let_def)
qed

lemma Format_RFC3339_chars: "set (Format_RFC3339 t) \<subseteq> rfc3339_chars"
proof -
  have "CHR ''-'' \<in> rfc3339_chars" "CHR ''T'' \<in> rfc3339_chars" "CHR '':'' \<in> rfc3339_chars"
    by (simp_all add: rfc3339_chars_def)
  then show ?thesis
    using appendInt_chars appendZone_chars by (auto simp: Format_RFC3339_def)
qed

lemma letters_not_rfc3339:
  "CHR ''a'' \<notin> rfc3339_chars" "CHR ''i'' \<notin> rfc3339_chars" "CHR ''u'' \<notin> rfc3339_chars"
  "CHR ''.'' \<notin> rfc3339_chars"
  by (simp_all add: rfc3339_chars_def)

subsection \<open>The qualifiers in the parts of a built query\<close>

lemma lits_Contains:
  "\<not> Contains ''archived:false'' ''archived:true''"
  "\<not> Contains ''is:open'' ''archived:true''"
  "\<not> Contains ''is:unlocked'' ''archived:true''"
  "Contains ''archived:false'' ''archived:false''"
  "\<not> Contains ''is:open'' ''archived:false''"
  "\<not> Contains ''is:unlocked'' ''archived:false''"
  "\<not> Contains ''archived:false'' ''is:closed''"
  "\<not> Contains ''is:open'' ''is:closed''"
  "\<not> Contains ''is:unlocked'' ''is:closed''"
  "\<not> Contains ''archived:false'' ''is:open''"
  "Contains ''is:open'' ''is:open''"
  "\<not> Contains ''is:unlocked'' ''is:open''"
  "\<not> Contains ''archived:false'' ''is:locked''"
  "\<not> Contains ''is:open'' ''is:locked''"
  "\<not> Contains ''is:unlocked'' ''is:locked''"
  "\<not> Contains ''archived:false'' ''is:unlocked''"
  "\<not> Contains ''is:open'' ''is:unlocked''"
  "Contains ''is:unlocked'' ''is:unlocked''"
  by code_simp+

lemma stamp_Contains:
  assumes "set ts \<subseteq> rfc3339_chars"
  shows "\<not> Contains (''updated:<='' @ ts) ''archived:true''"
    "\<not> Contains (''updated:<='' @ ts) ''archived:false''"
    "\<not> Contains (''updated:<='' @ ts) ''is:closed''"
    "\<not> Contains (''updated:<='' @ ts) ''is:open''"
    "\<not> Contains (''updated:<='' @ ts) ''is:locked''"
    "\<not> Contains (''updated:<='' @ ts) ''is:unlocked''"
proof -
  have a: "CHR ''a'' \<notin> set ts" and i: "CHR ''i'' \<notin> set ts"
    using assms letters_not_rfc3339 by blast+
  show "\<not> Contains (''updated:<='' @ ts) ''archived:true''"
    "\<not> Contains (''updated:<='' @ ts) ''archived:false''"
    using not_Contains_head [OF a] by (simp_all add: prefix_Cons)
  show "\<not> Contains (''updated:<='' @ ts) ''is:closed''"
    "\<not> Contains (''updated:<='' @ ts) ''is:open''"
    "\<not> Contains (''updated:<='' @ ts) ''is:locked''"
    "\<not> Contains (''updated:<='' @ ts) ''is:unlocked''"
    using not_Contains_head [OF i] by (simp_all add: prefix_Cons)
qed

subsection \<open>The shape of the result of \<open>makeQuery\<close>\<close>

lemma makeQuery_form:
  "makeQuery now local raw ia ic il mu =
    (let q = map nl_to_space raw in
     if \<not> ia \<and> Contains q ''archived:true''
       then Inl (errorString ''archived:true requires --include-archived'')
     else if ia \<and> Contains q ''archived:false''
       then Inl (errorString ''archived:false conflicts with --include-archived'')
     else if \<not> ic \<and> Contains q ''is:closed''
       then Inl (errorString ''is:closed requires --include-closed'')
     else if ic \<and> Contains q ''is:open''
       then Inl (errorString ''is:open conflicts with --include-closed'')
     else if \<not> il \<and> Contains q ''is:locked''
       then Inl (errorString ''is:locked requires --include-locked'')
     else if il \<and> Contains q ''is:unlocked''
       then Inl (errorString ''is:unlocked conflicts with --include-locked'')
     else Inr (Join (q # (if ia then [] else [''archived:false''])
                       @ (if ic then [] else [''is:open''])
                       @ (if il then [] else [''is:unlocked''])
                       @ (if mu = 0 then []
                          else [''updated:<='' @ Format_RFC3339 (local (Add now (- mu)))])) '' ''))"
  unfolding makeQuery_def ReplaceAll_newline Let_def errors_New_def
  by (cases ia; cases ic; cases il; simp)

lemma makeQuery_parts:
  assumes "makeQuery now local raw ia ic il mu = Inr q"
  shows "q = Join (map nl_to_space raw # (if ia then [] else [''archived:false''])
                       @ (if ic then [] else [''is:open''])
                       @ (if il then [] else [''is:unlocked''])
                       @ (if mu = 0 then []
                          else [''updated:<='' @ Format_RFC3339 (local (Add now (- mu)))])) '' ''"
  using assms unfolding makeQuery_form Let_def by (simp split: if_splits)

lemma makeQuery_Contains:
  assumes ok: "makeQuery now local raw ia ic il mu = Inr q"
    and n: "CHR '' '' \<notin> set n" "CHR 0x0A \<notin> set n" "n \<noteq> []"
  shows "Contains q n =
    (Contains raw n \<or> (\<not> ia \<and> Contains ''archived:false'' n) \<or> (\<not> ic \<and> Contains ''is:open'' n)
       \<or> (\<not> il \<and> Contains ''is:unlocked'' n)
       \<or> (mu \<noteq> 0 \<and> Contains (''updated:<='' @ Format_RFC3339 (local (Add now (- mu)))) n))"
proof -
  have "Contains (Join (map nl_to_space raw # ps) '' '') n =
           (Contains raw n \<or> (\<exists>p \<in> set ps. Contains p n))" for ps
    using n by (simp add: Contains_Join Contains_map_nl)
  then show ?thesis
    unfolding makeQuery_parts [OF ok] by auto
qed

lemma makeQuery_fails_iff:
  "(\<exists>err. makeQuery now local raw ia ic il mu = Inl err) \<longleftrightarrow>
      (Contains raw (if ia then ''archived:false'' else ''archived:true'') \<or>
       Contains raw (if ic then ''is:open'' else ''is:closed'') \<or>
       Contains raw (if il then ''is:unlocked'' else ''is:locked''))"
  unfolding makeQuery_form Let_def Contains_normalised by auto

subsection \<open>The three pairs of qualifiers\<close>

text \<open>
  C4. For each of the pairs \<open>archived:true\<close>/\<open>archived:false\<close>, \<open>is:closed\<close>/\<open>is:open\<close>
  and \<open>is:locked\<close>/\<open>is:unlocked\<close>: \<open>makeQuery\<close> fails exactly when the raw query
  contains the qualifier that opposes the toggle. When it succeeds, the built query
  contains the restrictive qualifier of the pair exactly when the toggle is off, and the
  permissive one exactly when the toggle is on and the raw query already had it. So the
  built query never has both qualifiers of a pair; with the toggle on and a raw query
  that names neither, it has neither.
\<close>

theorem makeQuery_toggle_pairs:
  "((\<exists>err. makeQuery now local raw ia ic il mu = Inl err) \<longleftrightarrow>
      (Contains raw (if ia then ''archived:false'' else ''archived:true'') \<or>
       Contains raw (if ic then ''is:open'' else ''is:closed'') \<or>
       Contains raw (if il then ''is:unlocked'' else ''is:locked'')))
   \<and> (\<forall>q. makeQuery now local raw ia ic il mu = Inr q \<longrightarrow>
       (Contains q ''archived:false'' \<longleftrightarrow> \<not> ia) \<and>
       (Contains q ''archived:true'' \<longleftrightarrow> ia \<and> Contains raw ''archived:true'') \<and>
       (Contains q ''is:open'' \<longleftrightarrow> \<not> ic) \<and>
       (Contains q ''is:closed'' \<longleftrightarrow> ic \<and> Contains raw ''is:closed'') \<and>
       (Contains q ''is:unlocked'' \<longleftrightarrow> \<not> il) \<and>
       (Contains q ''is:locked'' \<longleftrightarrow> il \<and> Contains raw ''is:locked''))"
proof (intro conjI allI impI)
  show "(\<exists>err. makeQuery now local raw ia ic il mu = Inl err) \<longleftrightarrow>
      (Contains raw (if ia then ''archived:false'' else ''archived:true'') \<or>
       Contains raw (if ic then ''is:open'' else ''is:closed'') \<or>
       Contains raw (if il then ''is:unlocked'' else ''is:locked''))"
    by (rule makeQuery_fails_iff)
next
  fix q assume ok: "makeQuery now local raw ia ic il mu = Inr q"
  have "\<not> (\<exists>err. makeQuery now local raw ia ic il mu = Inl err)" using ok by simp
  then have nc: "\<not> Contains raw (if ia then ''archived:false'' else ''archived:true'')"
    "\<not> Contains raw (if ic then ''is:open'' else ''is:closed'')"
    "\<not> Contains raw (if il then ''is:unlocked'' else ''is:locked'')"
    unfolding makeQuery_fails_iff by blast+
  note st = stamp_Contains [OF Format_RFC3339_chars, of "local (Add now (- mu))"]
  show "Contains q ''archived:false'' \<longleftrightarrow> \<not> ia"
    using nc(1) st(2)
    by (subst makeQuery_Contains [OF ok]) (auto simp: lits_Contains split: if_splits)
  show "Contains q ''archived:true'' \<longleftrightarrow> ia \<and> Contains raw ''archived:true''"
    using nc(1) st(1)
    by (subst makeQuery_Contains [OF ok]) (auto simp: lits_Contains split: if_splits)
  show "Contains q ''is:open'' \<longleftrightarrow> \<not> ic"
    using nc(2) st(4)
    by (subst makeQuery_Contains [OF ok]) (auto simp: lits_Contains split: if_splits)
  show "Contains q ''is:closed'' \<longleftrightarrow> ic \<and> Contains raw ''is:closed''"
    using nc(2) st(3)
    by (subst makeQuery_Contains [OF ok]) (auto simp: lits_Contains split: if_splits)
  show "Contains q ''is:unlocked'' \<longleftrightarrow> \<not> il"
    using nc(3) st(6)
    by (subst makeQuery_Contains [OF ok]) (auto simp: lits_Contains split: if_splits)
  show "Contains q ''is:locked'' \<longleftrightarrow> il \<and> Contains raw ''is:locked''"
    using nc(3) st(5)
    by (subst makeQuery_Contains [OF ok]) (auto simp: lits_Contains split: if_splits)
qed

theorem makeQuery_toggle_pairs_witness:
  "makeQuery 1793557800000000000 utc ''is:pr is:locked'' False False True 7200000000000
     = Inr ''is:pr is:locked archived:false is:open updated:<=2026-11-01T16:30:00Z''
   \<and> Contains ''is:pr is:locked archived:false is:open updated:<=2026-11-01T16:30:00Z''
        ''is:locked''
   \<and> \<not> Contains ''is:pr is:locked archived:false is:open updated:<=2026-11-01T16:30:00Z''
        ''is:unlocked''"
proof -
  have eq: "makeQuery 1793557800000000000 utc ''is:pr is:locked'' False False True 7200000000000
     = Inr ''is:pr is:locked archived:false is:open updated:<=2026-11-01T16:30:00Z''"
    by code_simp
  have raw: "Contains ''is:pr is:locked'' ''is:locked''"
    by code_simp
  show ?thesis
    using makeQuery_toggle_pairs
      [of 1793557800000000000 utc "''is:pr is:locked''" False False True 7200000000000]
      eq raw
    by blast
qed

text \<open>
  With \<open>--include-archived\<close> set and a raw query that names neither \<open>archived:true\<close>
  nor \<open>archived:false\<close>, the built query has neither qualifier of that pair.
\<close>

theorem makeQuery_pair_neither_counterexample:
  "makeQuery 1793557800000000000 utc ''is:issue'' True False False 0
     = Inr ''is:issue is:open is:unlocked''
   \<and> \<not> Contains ''is:issue is:open is:unlocked'' ''archived:true''
   \<and> \<not> Contains ''is:issue is:open is:unlocked'' ''archived:false''"
  by code_simp

subsection \<open>Counting the \<open>updated:<=\<close> qualifier\<close>

lemma occurrences_append_sep:
  "c \<notin> set n \<Longrightarrow> n \<noteq> [] \<Longrightarrow> occurrences (a @ c # b) n = occurrences a n + occurrences b n"
proof (induction a)
  case Nil
  then show ?case by (cases n) (auto simp: prefix_Cons)
next
  case (Cons x a)
  have "prefix n (x # a @ c # b) = prefix n (x # a)"
    using prefix_append_notin [OF Cons.prems(1), of "x # a" b] by simp
  with Cons show ?case by auto
qed

lemma occurrences_Join:
  "CHR '' '' \<notin> set n \<Longrightarrow> n \<noteq> [] \<Longrightarrow> ps \<noteq> [] \<Longrightarrow>
     occurrences (Join ps '' '') n = sum_list (map (\<lambda>p. occurrences p n) ps)"
proof (induction ps "'' ''" rule: Join.induct)
  case 1 then show ?case by simp
next
  case (2 a) then show ?case by simp
next
  case (3 a b bs)
  then show ?case
    using occurrences_append_sep [of "CHR '' ''" n a "Join (b # bs) '' ''"] by simp
qed

lemma occurrences_map_nl:
  "CHR 0x0A \<notin> set n \<Longrightarrow> CHR '' '' \<notin> set n \<Longrightarrow> n \<noteq> [] \<Longrightarrow>
     occurrences (map nl_to_space s) n = occurrences s n"
proof (induction s)
  case Nil then show ?case by simp
next
  case (Cons c s)
  then show ?case using prefix_map_nl [of n "c # s"] by simp
qed

lemma occurrences_none: "c \<notin> set s \<Longrightarrow> occurrences s (c # n) = 0"
  by (induction s) (auto simp: prefix_Cons)

lemma lits_occurrences:
  "occurrences ''archived:false'' ''updated:<='' = 0"
  "occurrences ''is:open'' ''updated:<='' = 0"
  "occurrences ''is:unlocked'' ''updated:<='' = 0"
  by code_simp+

lemma stamp_occurrences:
  assumes "set ts \<subseteq> rfc3339_chars"
  shows "occurrences (''updated:<='' @ ts) ''updated:<='' = 1"
proof -
  have u: "CHR ''u'' \<notin> set ts"
    using assms letters_not_rfc3339 by blast
  show ?thesis
    using occurrences_none [OF u] by (simp add: prefix_Cons)
qed

lemma Join_snoc: "ps \<noteq> [] \<Longrightarrow> Join (ps @ [p]) sep = Join ps sep @ sep @ p"
  by (induction ps sep rule: Join.induct) auto

lemma sint_neg:
  assumes "mu \<noteq> - (2 ^ 63)"
  shows "sint (- mu :: 64 word) = - sint mu"
proof -
  have r: "- (2 ^ 63) \<le> sint mu" "sint mu < 2 ^ 63"
    using sint_ge [of mu] sint_lt [of mu] by simp_all
  have "sint mu \<noteq> - (2 ^ 63)"
  proof
    assume "sint mu = - (2 ^ 63)"
    then have "word_of_int (sint mu) = (word_of_int (- (2 ^ 63)) :: 64 word)" by simp
    then have "mu = - (2 ^ 63)" by simp
    with assms show False ..
  qed
  then show ?thesis
    unfolding sint_word_minus using r by (simp add: signed_take_bit_int_eq_self_iff)
qed

lemma Contains_iff_occurrences: "Contains s n \<longleftrightarrow> 0 < occurrences s n"
  by (induction s) auto

lemma makeQuery_occurrences:
  assumes ok: "makeQuery now local raw ia ic il mu = Inr q"
  shows "occurrences q ''updated:<='' =
           occurrences raw ''updated:<='' + (if mu = 0 then 0 else 1)"
proof -
  have "occurrences (Join (map nl_to_space raw # ps) '' '') ''updated:<='' =
          occurrences raw ''updated:<='' + sum_list (map (\<lambda>p. occurrences p ''updated:<='') ps)"
    for ps
    by (simp add: occurrences_Join occurrences_map_nl)
  then show ?thesis
    unfolding makeQuery_parts [OF ok]
    using stamp_occurrences [OF Format_RFC3339_chars, of "local (Add now (- mu))"]
    by (simp add: lits_occurrences)
qed

lemma makeQuery_suffix:
  assumes ok: "makeQuery now local raw ia ic il mu = Inr q" and mu: "mu \<noteq> 0"
  shows "suffix ('' updated:<='' @ Format_RFC3339 (local (Add now (- mu)))) q"
proof -
  let ?ps = "map nl_to_space raw # (if ia then [] else [''archived:false''])
                       @ (if ic then [] else [''is:open''])
                       @ (if il then [] else [''is:unlocked''])"
  have "q = Join (?ps @ [''updated:<='' @ Format_RFC3339 (local (Add now (- mu)))]) '' ''"
    using makeQuery_parts [OF ok] mu by simp
  also have "\<dots> = Join ?ps '' '' @ '' '' @ ''updated:<='' @ Format_RFC3339 (local (Add now (- mu)))"
    by (rule Join_snoc) simp
  finally show ?thesis
    by (simp add: suffix_def)
qed

subsection \<open>Queries that name \<open>archived:true\<close>\<close>

text \<open>
  C3. For a raw query that contains \<open>archived:true\<close>: without \<open>--include-archived\<close>,
  \<open>makeQuery\<close> fails with the error that asks for that flag. With
  \<open>--include-archived\<close>, \<open>makeQuery\<close> can only fail because the raw query contains
  \<open>archived:false\<close> or a qualifier that opposes the closed or the locked toggle; when
  the raw query contains none of these, \<open>makeQuery\<close> succeeds and the built query does
  not contain \<open>archived:false\<close>.
\<close>

theorem makeQuery_archived_true:
  assumes "Contains raw ''archived:true''"
  shows "makeQuery now local raw False ic il mu
           = Inl (errorString ''archived:true requires --include-archived'')
     \<and> (\<forall>err. makeQuery now local raw True ic il mu = Inl err \<longrightarrow>
           Contains raw ''archived:false''
           \<or> Contains raw (if ic then ''is:open'' else ''is:closed'')
           \<or> Contains raw (if il then ''is:unlocked'' else ''is:locked''))
     \<and> (\<not> Contains raw ''archived:false''
         \<and> \<not> Contains raw (if ic then ''is:open'' else ''is:closed'')
         \<and> \<not> Contains raw (if il then ''is:unlocked'' else ''is:locked'') \<longrightarrow>
         (\<exists>q. makeQuery now local raw True ic il mu = Inr q \<and> \<not> Contains q ''archived:false''))"
proof (intro conjI allI impI)
  show "makeQuery now local raw False ic il mu
           = Inl (errorString ''archived:true requires --include-archived'')"
    using assms unfolding makeQuery_form Let_def Contains_normalised by simp
  show "Contains raw ''archived:false''
           \<or> Contains raw (if ic then ''is:open'' else ''is:closed'')
           \<or> Contains raw (if il then ''is:unlocked'' else ''is:locked'')"
    if "makeQuery now local raw True ic il mu = Inl err" for err
    using that makeQuery_fails_iff [of now local raw True ic il mu] by auto
  show "\<exists>q. makeQuery now local raw True ic il mu = Inr q \<and> \<not> Contains q ''archived:false''"
    if h: "\<not> Contains raw ''archived:false''
         \<and> \<not> Contains raw (if ic then ''is:open'' else ''is:closed'')
         \<and> \<not> Contains raw (if il then ''is:unlocked'' else ''is:locked'')"
  proof -
    from h have "\<not> (\<exists>err. makeQuery now local raw True ic il mu = Inl err)"
      unfolding makeQuery_fails_iff by simp
    then obtain q where ok: "makeQuery now local raw True ic il mu = Inr q"
      by (cases "makeQuery now local raw True ic il mu") auto
    have "\<not> Contains q ''archived:false''"
      using h stamp_Contains(2) [OF Format_RFC3339_chars, of "local (Add now (- mu))"]
      by (subst makeQuery_Contains [OF ok]) (auto simp: lits_Contains)
    with ok show ?thesis by blast
  qed
qed

theorem makeQuery_archived_true_witness:
  "makeQuery 1793557800000000000 utc ''is:pr archived:true'' False False False 0
     = Inl (errorString ''archived:true requires --include-archived'')
   \<and> (\<exists>q. makeQuery 1793557800000000000 utc ''is:pr archived:true'' True False False 0 = Inr q
          \<and> \<not> Contains q ''archived:false'')"
proof -
  have raw: "Contains ''is:pr archived:true'' ''archived:true''"
    "\<not> Contains ''is:pr archived:true'' ''archived:false''"
    "\<not> Contains ''is:pr archived:true'' ''is:closed''"
    "\<not> Contains ''is:pr archived:true'' ''is:locked''"
    by code_simp+
  show ?thesis
    using makeQuery_archived_true
      [OF raw(1), of 1793557800000000000 utc False False 0] raw
    by simp
qed

text \<open>
  A raw query with \<open>archived:true\<close> and without \<open>archived:false\<close> is still rejected
  under \<open>--include-archived\<close> when it names \<open>is:closed\<close> and \<open>--include-closed\<close> is
  not set.
\<close>

theorem makeQuery_archived_true_counterexample:
  "Contains ''archived:true is:closed'' ''archived:true''
   \<and> \<not> Contains ''archived:true is:closed'' ''archived:false''
   \<and> makeQuery 1793557800000000000 utc ''archived:true is:closed'' True False False 0
       = Inl (errorString ''is:closed requires --include-closed'')"
  by code_simp

subsection \<open>The \<open>updated:<=\<close> qualifier\<close>

text \<open>
  C5. Whenever \<open>makeQuery\<close> succeeds, the built query has as many occurrences of
  \<open>updated:<=\<close> as the raw query when \<open>minUpdated\<close> is zero, and exactly one more when
  it is not. So for a raw query without \<open>updated:<=\<close> the built query has none when
  \<open>minUpdated\<close> is zero and exactly one otherwise. That one ends the query: it is
  \<open>updated:<=\<close> followed by the RFC 3339 text, without fractional seconds, of
  \<open>time.Now().Add(-minUpdated)\<close> in the local calendar, and this instant is the current
  time minus \<open>minUpdated\<close> for every \<open>minUpdated\<close> but the least \<open>int64\<close>.
\<close>

theorem makeQuery_updated_qualifier:
  assumes ok: "makeQuery now local raw ia ic il mu = Inr q"
  shows "occurrences q ''updated:<='' = occurrences raw ''updated:<='' + (if mu = 0 then 0 else 1)
     \<and> (\<not> Contains raw ''updated:<='' \<longrightarrow>
          (if mu = 0 then \<not> Contains q ''updated:<='' else occurrences q ''updated:<='' = 1))
     \<and> (mu \<noteq> 0 \<longrightarrow>
          suffix ('' updated:<='' @ Format_RFC3339 (local (Add now (- mu)))) q
          \<and> CHR ''.'' \<notin> set (Format_RFC3339 (local (Add now (- mu)))))
     \<and> (mu \<noteq> - (2 ^ 63) \<longrightarrow> Add now (- mu) = now - sint mu)"
proof (intro conjI impI)
  show occ: "occurrences q ''updated:<='' =
      occurrences raw ''updated:<='' + (if mu = 0 then 0 else 1)"
    by (rule makeQuery_occurrences [OF ok])
  show "if mu = 0 then \<not> Contains q ''updated:<='' else occurrences q ''updated:<='' = 1"
    if "\<not> Contains raw ''updated:<=''"
    using that occ by (simp add: Contains_iff_occurrences)
  show "suffix ('' updated:<='' @ Format_RFC3339 (local (Add now (- mu)))) q" if "mu \<noteq> 0"
    by (rule makeQuery_suffix [OF ok that])
  show "CHR ''.'' \<notin> set (Format_RFC3339 (local (Add now (- mu))))"
    using Format_RFC3339_chars letters_not_rfc3339(4) by blast
  show "Add now (- mu) = now - sint mu" if "mu \<noteq> - (2 ^ 63)"
    using sint_neg [OF that] by (simp add: Add_def)
qed

theorem makeQuery_updated_qualifier_witness:
  "occurrences ''is:pr archived:false is:open is:unlocked updated:<=2026-11-01T16:30:00Z''
      ''updated:<='' = 1
   \<and> suffix '' updated:<=2026-11-01T16:30:00Z''
        ''is:pr archived:false is:open is:unlocked updated:<=2026-11-01T16:30:00Z''
   \<and> Add 1793557800000000000 (- 7200000000000) = 1793557800000000000 - 7200000000000"
proof -
  have eq: "makeQuery 1793557800000000000 utc ''is:pr'' False False False 7200000000000
     = Inr ''is:pr archived:false is:open is:unlocked updated:<=2026-11-01T16:30:00Z''"
    by code_simp
  have raw: "\<not> Contains ''is:pr'' ''updated:<=''"
    by code_simp
  have mu: "(7200000000000 :: 64 word) \<noteq> 0" "(7200000000000 :: 64 word) \<noteq> - (2 ^ 63)"
    by simp_all
  have s: "sint (7200000000000 :: 64 word) = 7200000000000"
    by simp
  have f: "Format_RFC3339 (utc (Add 1793557800000000000 (- 7200000000000)))
             = ''2026-11-01T16:30:00Z''"
    by code_simp
  note t = makeQuery_updated_qualifier [OF eq]
  from t raw mu(1) have "occurrences
      ''is:pr archived:false is:open is:unlocked updated:<=2026-11-01T16:30:00Z''
      ''updated:<='' = 1"
    by (auto simp del: occurrences.simps Contains.simps)
  moreover from t mu(1) have "suffix ('' updated:<=''
        @ Format_RFC3339 (utc (Add 1793557800000000000 (- 7200000000000))))
        ''is:pr archived:false is:open is:unlocked updated:<=2026-11-01T16:30:00Z''"
    by blast
  then have "suffix '' updated:<=2026-11-01T16:30:00Z''
        ''is:pr archived:false is:open is:unlocked updated:<=2026-11-01T16:30:00Z''"
    unfolding f by simp
  moreover from t mu(2)
  have "Add 1793557800000000000 (- 7200000000000) = 1793557800000000000 - sint (7200000000000 :: 64 word)"
    by blast
  then have "Add 1793557800000000000 (- 7200000000000) = 1793557800000000000 - 7200000000000"
    unfolding s .
  ultimately show ?thesis by blast
qed

text \<open>
  A raw query that has an \<open>updated:<=\<close> qualifier of its own keeps it when
  \<open>minUpdated\<close> is zero. For the least \<open>int64\<close> the negation wraps: the timestamp
  lies about 292 years before the current time, not after it.
\<close>

theorem makeQuery_updated_counterexample:
  "makeQuery 1793557800000000000 utc ''updated:<=2020-01-01'' False False False 0
     = Inr ''updated:<=2020-01-01 archived:false is:open is:unlocked''
   \<and> Contains ''updated:<=2020-01-01 archived:false is:open is:unlocked'' ''updated:<=''
   \<and> makeQuery 1793557800000000000 utc ''is:pr'' True True True (- (2 ^ 63))
     = Inr ''is:pr updated:<=1734-07-23T18:42:43Z''
   \<and> Format_RFC3339 (utc (1793557800000000000 - sint (- (2 ^ 63) :: 64 word)))
     = ''2319-02-11T18:17:16Z''"
  by code_simp

section \<open>Properties of the batch runner\<close>

subsection \<open>Traces\<close>

lemma visited_append [simp]: "visited (es @ fs) = visited es @ visited fs"
  by (induction es rule: visited.induct) auto

lemma created_append [simp]: "created (es @ fs) = created es @ created fs"
  by (induction es rule: created.induct) auto

lemma logged_append [simp]: "logged (es @ fs) = logged es @ logged fs"
  by (induction es rule: logged.induct) auto

lemma failures_append [simp]: "failures (es @ fs) = failures es @ failures fs"
  by (simp add: failures_def)

subsection \<open>One item\<close>

lemmas item_defs = process_item_def Let_def log_def record_problem_def

lemma process_item_visited:
  "visited (trace (process_item c com i st)) = visited (trace st) @ [i]"
  by (auto simp: item_defs split: sum.splits prod.splits option.splits)

lemma process_item_created:
  "length (created (trace (process_item c com i st))) \<le> Suc (length (created (trace st)))"
  by (auto simp: item_defs split: sum.splits prod.splits option.splits)

lemma process_item_problems:
  "problems st = failures (trace st) \<Longrightarrow>
     problems (process_item c com i st) = failures (trace (process_item c com i st))"
  by (auto simp: item_defs failures_def split: sum.splits prod.splits option.splits)

lemma process_item_logged:
  "\<forall>m \<in> set (logged (trace st)). \<not> prefix ''Stopping at --ceiling='' m \<Longrightarrow>
   \<forall>m \<in> set (logged (trace (process_item c com i st))). \<not> prefix ''Stopping at --ceiling='' m"
  by (auto simp: item_defs split: sum.splits prod.splits option.splits)


subsection \<open>The loop\<close>

lemma range_issues_visited:
  "visited (trace (range_issues c com ceiling len n is st)) =
     visited (trace st) @ (if 0 < ceiling \<and> int n \<le> ceiling then take (nat ceiling - n) is else is)"
proof (induction "is" arbitrary: n st)
  case Nil
  then show ?case by simp
next
  case (Cons i rest)
  show ?case
  proof (cases "0 < ceiling \<and> int n = ceiling")
    case True
    then show ?thesis by (auto simp: log_def)
  next
    case False
    have "0 < ceiling \<and> int n \<le> ceiling \<Longrightarrow> nat ceiling - n = Suc (nat ceiling - Suc n)"
      using False by linarith
    then show ?thesis
      using False Cons.IH [of "Suc n" "process_item c com i st"]
      by (auto simp: process_item_visited)
  qed
qed

lemma range_issues_created:
  "length (created (trace (range_issues c com ceiling len n is st))) + length (visited (trace st))
     \<le> length (created (trace st)) + length (visited (trace (range_issues c com ceiling len n is st)))"
proof (induction "is" arbitrary: n st)
  case Nil
  then show ?case by simp
next
  case (Cons i rest)
  show ?case
  proof (cases "0 < ceiling \<and> int n = ceiling")
    case True
    then show ?thesis by (simp add: log_def)
  next
    case False
    then show ?thesis
      using Cons.IH [of "Suc n" "process_item c com i st"]
        process_item_created [of c com i st] process_item_visited [of c com i st]
      by auto
  qed
qed

lemma range_issues_problems:
  "problems st = failures (trace st) \<Longrightarrow>
     problems (range_issues c com ceiling len n is st)
       = failures (trace (range_issues c com ceiling len n is st))"
proof (induction "is" arbitrary: n st)
  case Nil
  then show ?case by simp
next
  case (Cons i rest)
  show ?case
  proof (cases "0 < ceiling \<and> int n = ceiling")
    case True
    then show ?thesis using Cons.prems by (simp add: log_def failures_def)
  next
    case False
    then have "range_issues c com ceiling len n (i # rest) st
      = range_issues c com ceiling len (Suc n) rest (process_item c com i st)"
      by auto
    then show ?thesis
      using Cons.IH [OF process_item_problems [OF Cons.prems]] by simp
  qed
qed

lemma range_issues_unlimited:
  "ceiling \<le> 0 \<Longrightarrow>
     range_issues c com ceiling len n is st = range_issues c com 0 len' n is st"
  by (induction "is" arbitrary: n st) auto

lemma range_issues_no_stop:
  "ceiling \<le> 0 \<Longrightarrow>
   \<forall>m \<in> set (logged (trace st)). \<not> prefix ''Stopping at --ceiling='' m \<Longrightarrow>
   \<forall>m \<in> set (logged (trace (range_issues c com ceiling len n is st))).
      \<not> prefix ''Stopping at --ceiling='' m"
proof (induction "is" arbitrary: n st)
  case Nil
  then show ?case by simp
next
  case (Cons i rest)
  from Cons.prems(1) have "range_issues c com ceiling len n (i # rest) st
      = range_issues c com ceiling len (Suc n) rest (process_item c com i st)"
    by simp
  then show ?case
    using Cons.IH [OF Cons.prems(1) process_item_logged [OF Cons.prems(2)]] by simp
qed

lemma range_issues_stop:
  "0 < ceiling \<Longrightarrow> int n \<le> ceiling \<Longrightarrow> nat ceiling - n < length is \<Longrightarrow>
     range_issues c com ceiling len n is st =
       log (''Stopping at --ceiling='' @ Itoa ceiling @ '' of '' @ Itoa (int len) @ '' results'')
         (range_issues c com 0 len' n (take (nat ceiling - n) is) st)"
proof (induction "is" arbitrary: n st)
  case Nil
  then show ?case by simp
next
  case (Cons i rest)
  show ?case
  proof (cases "int n = ceiling")
    case True
    then show ?thesis using Cons.prems by auto
  next
    case False
    with Cons.prems have lt: "int n < ceiling" by simp
    then have s: "nat ceiling - n = Suc (nat ceiling - Suc n)" by linarith
    have "range_issues c com ceiling len (Suc n) rest (process_item c com i st) =
       log (''Stopping at --ceiling='' @ Itoa ceiling @ '' of '' @ Itoa (int len) @ '' results'')
         (range_issues c com 0 len' (Suc n) (take (nat ceiling - Suc n) rest)
            (process_item c com i st))"
      using Cons.prems lt s by (intro Cons.IH) auto
    then show ?thesis
      using False s by simp
  qed
qed

subsection \<open>The shuffle\<close>

lemma length_shuffle_loop [simp]: "length (shuffle_loop rnd i xs) = length xs"
  by (induction i arbitrary: xs) (auto simp: Let_def)

lemma length_Shuffle [simp]: "length (Shuffle rnd xs) = length xs"
  by (simp add: Shuffle_def)

lemma mset_shuffle_loop: "i < length xs \<Longrightarrow> mset (shuffle_loop rnd i xs) = mset xs"
proof (induction i arbitrary: xs)
  case 0
  then show ?case by simp
next
  case (Suc i)
  let ?j = "rnd (Suc i) mod (Suc i + 1)"
  have j: "?j < length xs"
    using Suc.prems by (metis Suc_eq_plus1 less_Suc_eq_le mod_less_divisor order_le_less_trans zero_less_Suc)
  have "mset (xs[Suc i := xs ! ?j, ?j := xs ! Suc i]) = mset xs"
    using mset_swap [OF j Suc.prems] .
  moreover have "i < length (xs[Suc i := xs ! ?j, ?j := xs ! Suc i])"
    using Suc.prems by simp
  ultimately show ?case
    using Suc.IH [of "xs[Suc i := xs ! ?j, ?j := xs ! Suc i]"] by (simp add: Let_def)
qed

lemma mset_Shuffle: "mset (Shuffle rnd xs) = mset xs"
proof (cases xs)
  case Nil
  then show ?thesis by (simp add: Shuffle_def)
next
  case (Cons x ys)
  then show ?thesis unfolding Shuffle_def by (intro mset_shuffle_loop) simp
qed

lemma mset_take_subset: "mset (take n xs) \<subseteq># mset xs"
proof -
  have "mset xs = mset (take n xs) + mset (drop n xs)"
    by (metis append_take_drop_id mset_append)
  then show ?thesis by simp
qed

subsection \<open>The run after the search\<close>

lemma range_issues_stop':
  "0 < ceiling \<Longrightarrow> int n \<le> ceiling \<Longrightarrow> nat ceiling - n < length is \<Longrightarrow>
     range_issues c com ceiling len n is st =
       log (stopping ceiling len) (range_issues c com 0 len' n (take (nat ceiling - n) is) st)"
  unfolding stopping_def by (rule range_issues_stop)

lemma run_found:
  assumes "FindIssuesWithOrg c cl0 org query sort' asc = (Inr found, cl1)"
  shows "run c rnd cl0 org query sort' asc random com ceiling =
    (let issues = (if random then Shuffle rnd found else found);
         st = range_issues c com ceiling (length issues) 0 issues
                (searched cl1 org query sort' asc found)
     in (aggregate (problems st), st))"
  using assms by (simp add: run_def Let_def log_def searched_def aggregate_def)

lemma searched_simps [simp]:
  "visited (trace (searched cl1 org query sort' asc found)) = []"
  "created (trace (searched cl1 org query sort' asc found)) = []"
  "problems (searched cl1 org query sort' asc found) = []"
  "failures (trace (searched cl1 org query sort' asc found)) = []"
  "\<forall>m \<in> set (logged (trace (searched cl1 org query sort' asc found))).
      \<not> prefix ''Stopping at --ceiling='' m"
  by (simp_all add: searched_def failures_def)

lemma find_recording:
  "FindIssuesWithOrg (recording_client found reply) s org query sort' asc = (found, s)"
  by (simp add: recording_client_def)

subsection \<open>A failing search\<close>

text \<open>
  C7. When the search capability of the client returns an error, \<open>run\<close> returns that
  error wrapped as \<open>search failed: ...\<close> at once: all it has done is to log the query
  and to call the search, so no item is visited, the comment-producing function is not
  called and \<open>CreateComment\<close> is not called.
\<close>

theorem run_search_failure:
  assumes "FindIssuesWithOrg c cl0 org query sort' asc = (Inl err, cl1)"
  shows "run c rnd cl0 org query sort' asc random com ceiling =
           (Some (wrapError (''search failed: '' @ Error err) err),
            \<lparr>cl = cl1, problems = [],
             trace = [LogPrint (''Searching: '' @ query),
                      FindIssuesWithOrg_call org query sort' asc]\<rparr>)
     \<and> visited (trace (snd (run c rnd cl0 org query sort' asc random com ceiling))) = []
     \<and> created (trace (snd (run c rnd cl0 org query sort' asc random com ceiling))) = []
     \<and> map_option Unwrap (fst (run c rnd cl0 org query sort' asc random com ceiling))
           = Some (Some err)"
  using assms by (simp add: run_def Let_def log_def)

theorem run_search_failure_witness:
  "run (recording_client (Inl (errorString ''502 Bad Gateway'')) always_ok) draw_zero []
       ''kubernetes'' ''is:pr'' ''updated'' True False (literal_commenter ''hello'') 3
     = (Some (wrapError ''search failed: 502 Bad Gateway'' (errorString ''502 Bad Gateway'')),
        \<lparr>cl = [], problems = [],
         trace = [LogPrint ''Searching: is:pr'',
                  FindIssuesWithOrg_call ''kubernetes'' ''is:pr'' ''updated'' True]\<rparr>)"
proof -
  have find: "FindIssuesWithOrg (recording_client (Inl (errorString ''502 Bad Gateway'')) always_ok)
      [] ''kubernetes'' ''is:pr'' ''updated'' True = (Inl (errorString ''502 Bad Gateway''), [])"
    by (rule find_recording)
  show ?thesis
    using run_search_failure [OF find, where rnd = draw_zero and random = False
      and com = "literal_commenter ''hello''" and ceiling = 3]
    by simp
qed

subsection \<open>The ceiling\<close>

text \<open>
  C2. For a positive ceiling \<open>N\<close> and a search result of more than \<open>N\<close> items,
  \<open>run\<close> visits exactly the first \<open>N\<close> items of the list it iterates (the search
  result, shuffled if \<open>random\<close> is set) and calls \<open>CreateComment\<close> at most \<open>N\<close>
  times. The stop records no failure: the final state is the state reached by
  processing those \<open>N\<close> items without a ceiling, with the line \<open>Stopping at ...\<close>
  logged after it, so the recorded failures are those of the \<open>N\<close> items.
\<close>

theorem run_ceiling:
  assumes find: "FindIssuesWithOrg c cl0 org query sort' asc = (Inr found, cl1)"
    and N: "0 < N" "nat N < length found"
  shows "(let issues = (if random then Shuffle rnd found else found);
              st = snd (run c rnd cl0 org query sort' asc random com N)
          in visited (trace st) = take (nat N) issues
           \<and> length (visited (trace st)) = nat N
           \<and> length (created (trace st)) \<le> nat N
           \<and> st = log (stopping N (length found))
                    (range_issues c com 0 (nat N) 0 (take (nat N) issues)
                       (searched cl1 org query sort' asc found))
           \<and> problems st = problems (range_issues c com 0 (nat N) 0 (take (nat N) issues)
                       (searched cl1 org query sort' asc found)))"
proof -
  define issues where "issues = (if random then Shuffle rnd found else found)"
  define st where "st = range_issues c com N (length issues) 0 issues
                (searched cl1 org query sort' asc found)"
  have len: "length issues = length found"
    by (simp add: issues_def)
  have snd: "snd (run c rnd cl0 org query sort' asc random com N) = st"
    unfolding run_found [OF find] st_def issues_def by (simp add: Let_def)
  have v: "visited (trace st) = take (nat N) issues"
    unfolding st_def range_issues_visited using N by simp
  have cr: "length (created (trace st)) \<le> length (visited (trace st))"
    using range_issues_created [of c com N "length issues" 0 issues
        "searched cl1 org query sort' asc found"]
    unfolding st_def by simp
  have stop: "st = log (stopping N (length found))
                    (range_issues c com 0 (nat N) 0 (take (nat N) issues)
                       (searched cl1 org query sort' asc found))"
    unfolding st_def using N len range_issues_stop' [of N 0 issues c com "length issues"] by simp
  have "problems st = problems (range_issues c com 0 (nat N) 0 (take (nat N) issues)
                       (searched cl1 org query sort' asc found))"
    by (subst stop) (simp add: log_def)
  with v cr stop N len show ?thesis
    unfolding Let_def snd issues_def [symmetric] by simp
qed

theorem run_ceiling_witness:
  "visited (trace (snd (run (recording_client (Inr example_issues) always_ok) draw_zero []
       ''kubernetes'' ''is:pr'' ''updated'' True False (literal_commenter ''hello'') 2)))
     = [example_issues ! 0, example_issues ! 1]
   \<and> length (created (trace (snd (run (recording_client (Inr example_issues) always_ok) draw_zero []
       ''kubernetes'' ''is:pr'' ''updated'' True False (literal_commenter ''hello'') 2)))) \<le> 2"
proof -
  have find: "FindIssuesWithOrg (recording_client (Inr example_issues) always_ok)
      [] ''kubernetes'' ''is:pr'' ''updated'' True = (Inr example_issues, [])"
    by (rule find_recording)
  have N: "(0::int) < 2" "nat 2 < length example_issues"
    by (simp_all add: example_issues_def)
  have t: "take (nat 2) example_issues = [example_issues ! 0, example_issues ! 1]"
    by (simp add: example_issues_def)
  note w = run_ceiling [OF find N, where rnd = draw_zero and random = False
      and com = "literal_commenter ''hello''", unfolded Let_def if_False]
  from w have "visited (trace (snd (run (recording_client (Inr example_issues) always_ok) draw_zero []
       ''kubernetes'' ''is:pr'' ''updated'' True False (literal_commenter ''hello'') 2)))
     = take (nat 2) example_issues"
    by blast
  moreover from w have "length (created (trace (snd (run (recording_client (Inr example_issues) always_ok) draw_zero []
       ''kubernetes'' ''is:pr'' ''updated'' True False (literal_commenter ''hello'') 2)))) \<le> nat 2"
    by blast
  ultimately show ?thesis
    unfolding t by simp
qed

subsection \<open>The aggregate error\<close>

text \<open>
  C8. When the search succeeds, the failures \<open>run\<close> has recorded are exactly the
  failure lines it has logged, \<open>run\<close> returns an error if and only if at least one
  failure was recorded, whatever the ceiling, and that error gives the number of
  recorded failures and lists them all.
\<close>

theorem run_aggregate:
  assumes find: "FindIssuesWithOrg c cl0 org query sort' asc = (Inr found, cl1)"
  shows "(let err = fst (run c rnd cl0 org query sort' asc random com ceiling);
              st = snd (run c rnd cl0 org query sort' asc random com ceiling)
          in problems st = failures (trace st)
           \<and> (err \<noteq> None \<longleftrightarrow> problems st \<noteq> [])
           \<and> (problems st \<noteq> [] \<longrightarrow>
                err = Some (errorString (''encoutered '' @ Itoa (int (length (problems st)))
                              @ '' failures: ['' @ Join (problems st) '' '' @ '']''))))"
proof -
  define issues where "issues = (if random then Shuffle rnd found else found)"
  define st where "st = range_issues c com ceiling (length issues) 0 issues
                (searched cl1 org query sort' asc found)"
  have r: "run c rnd cl0 org query sort' asc random com ceiling = (aggregate (problems st), st)"
    unfolding run_found [OF find] st_def issues_def by (simp add: Let_def)
  have "problems st = failures (trace st)"
    unfolding st_def by (rule range_issues_problems) simp
  then show ?thesis
    unfolding Let_def r by (simp add: aggregate_def)
qed

theorem run_aggregate_witness:
  "problems (snd (run (recording_client (Inr (malformed_issue # example_issues)) reject_zero)
       draw_zero [] ''kubernetes'' ''is:pr'' ''updated'' True False (literal_commenter ''hello'') 0))
     = [''Failed to parse https://github.com/kubernetes/test-infra/issues/: failed to parse: https://github.com/kubernetes/test-infra/issues/'',
        ''Failed to apply comment to /#0: 404 Not Found'']
   \<and> fst (run (recording_client (Inr (malformed_issue # example_issues)) reject_zero)
       draw_zero [] ''kubernetes'' ''is:pr'' ''updated'' True False (literal_commenter ''hello'') 0)
     = Some (errorString ''encoutered 2 failures: [Failed to parse https://github.com/kubernetes/test-infra/issues/: failed to parse: https://github.com/kubernetes/test-infra/issues/ Failed to apply comment to /#0: 404 Not Found]'')"
proof -
  have find: "FindIssuesWithOrg (recording_client (Inr (malformed_issue # example_issues)) reject_zero)
      [] ''kubernetes'' ''is:pr'' ''updated'' True = (Inr (malformed_issue # example_issues), [])"
    by (rule find_recording)
  have p: "problems (snd (run (recording_client (Inr (malformed_issue # example_issues)) reject_zero)
       draw_zero [] ''kubernetes'' ''is:pr'' ''updated'' True False (literal_commenter ''hello'') 0))
     = [''Failed to parse https://github.com/kubernetes/test-infra/issues/: failed to parse: https://github.com/kubernetes/test-infra/issues/'',
        ''Failed to apply comment to /#0: 404 Not Found'']"
    by code_simp
  have m: "''encoutered '' @ Itoa (int (length
      [''Failed to parse https://github.com/kubernetes/test-infra/issues/: failed to parse: https://github.com/kubernetes/test-infra/issues/'',
        ''Failed to apply comment to /#0: 404 Not Found''])) @ '' failures: ['' @ Join
      [''Failed to parse https://github.com/kubernetes/test-infra/issues/: failed to parse: https://github.com/kubernetes/test-infra/issues/'',
        ''Failed to apply comment to /#0: 404 Not Found''] '' '' @ '']''
     = ''encoutered 2 failures: [Failed to parse https://github.com/kubernetes/test-infra/issues/: failed to parse: https://github.com/kubernetes/test-infra/issues/ Failed to apply comment to /#0: 404 Not Found]''"
    by code_simp
  show ?thesis
    using run_aggregate [OF find, where rnd = draw_zero and random = False
      and com = "literal_commenter ''hello''" and ceiling = 0]
    unfolding Let_def p m by simp
qed

text \<open>
  When the search fails, \<open>run\<close> returns an error although no failure of an item was
  recorded or logged.
\<close>

theorem run_aggregate_counterexample:
  "fst (run (recording_client (Inl (errorString ''502 Bad Gateway'')) always_ok) draw_zero []
       ''kubernetes'' ''is:pr'' ''updated'' True False (literal_commenter ''hello'') 3)
     = Some (wrapError ''search failed: 502 Bad Gateway'' (errorString ''502 Bad Gateway''))
   \<and> problems (snd (run (recording_client (Inl (errorString ''502 Bad Gateway'')) always_ok)
       draw_zero [] ''kubernetes'' ''is:pr'' ''updated'' True False (literal_commenter ''hello'') 3))
     = []
   \<and> failures (trace (snd (run (recording_client (Inl (errorString ''502 Bad Gateway'')) always_ok)
       draw_zero [] ''kubernetes'' ''is:pr'' ''updated'' True False (literal_commenter ''hello'') 3)))
     = []"
  by code_simp

subsection \<open>Random order\<close>

text \<open>
  C9. With \<open>random\<close> set, the list \<open>run\<close> iterates is the shuffled search result,
  which is a permutation of the search result for every outcome \<open>rnd\<close> of the random
  draws: no item is lost and none is duplicated. The items visited are a prefix of
  it, hence a sub-multiset of the search result, and at most \<open>ceiling\<close> items are
  visited when the ceiling is positive.
\<close>

theorem run_random:
  assumes find: "FindIssuesWithOrg c cl0 org query sort' asc = (Inr found, cl1)"
  shows "(let st = snd (run c rnd cl0 org query sort' asc True com ceiling)
          in mset (Shuffle rnd found) = mset found
           \<and> visited (trace st) =
               (if 0 < ceiling then take (nat ceiling) (Shuffle rnd found) else Shuffle rnd found)
           \<and> mset (visited (trace st)) \<subseteq># mset found
           \<and> (0 < ceiling \<longrightarrow> length (visited (trace st)) \<le> nat ceiling))"
proof -
  define st where "st = range_issues c com ceiling (length (Shuffle rnd found)) 0
                (Shuffle rnd found) (searched cl1 org query sort' asc found)"
  have snd: "snd (run c rnd cl0 org query sort' asc True com ceiling) = st"
    unfolding run_found [OF find] st_def by (simp add: Let_def)
  have v: "visited (trace st) =
      (if 0 < ceiling then take (nat ceiling) (Shuffle rnd found) else Shuffle rnd found)"
    unfolding st_def range_issues_visited by simp
  have "mset (visited (trace st)) \<subseteq># mset (Shuffle rnd found)"
    unfolding v using mset_take_subset [of "nat ceiling" "Shuffle rnd found"] by simp
  then have "mset (visited (trace st)) \<subseteq># mset found"
    by (simp add: mset_Shuffle)
  with v show ?thesis
    unfolding Let_def snd by (simp add: mset_Shuffle)
qed

theorem run_random_witness:
  "Shuffle draw_succ example_issues = [example_issues ! 1, example_issues ! 2, example_issues ! 0]
   \<and> mset (Shuffle draw_succ example_issues) = mset example_issues
   \<and> visited (trace (snd (run (recording_client (Inr example_issues) always_ok) draw_succ []
       ''kubernetes'' ''is:pr'' ''updated'' True True (literal_commenter ''hello'') 2)))
     = [example_issues ! 1, example_issues ! 2]"
proof -
  have find: "FindIssuesWithOrg (recording_client (Inr example_issues) always_ok)
      [] ''kubernetes'' ''is:pr'' ''updated'' True = (Inr example_issues, [])"
    by (rule find_recording)
  have s: "Shuffle draw_succ example_issues
      = [example_issues ! 1, example_issues ! 2, example_issues ! 0]"
    by code_simp
  have t: "take (nat 2) [example_issues ! 1, example_issues ! 2, example_issues ! 0]
      = [example_issues ! 1, example_issues ! 2]"
    by simp
  show ?thesis
    using run_random [OF find, where rnd = draw_succ
      and com = "literal_commenter ''hello''" and ceiling = 2]
    unfolding Let_def s t by simp
qed

subsection \<open>A negative ceiling\<close>

text \<open>
  C10. With a negative ceiling \<open>run\<close> returns the same error and the same final state
  as with ceiling 0: after a successful search every item of the list is visited, and
  no line \<open>Stopping at ...\<close> is logged.
\<close>

theorem run_negative_ceiling:
  assumes neg: "ceiling < 0"
  shows "run c rnd cl0 org query sort' asc random com ceiling
           = run c rnd cl0 org query sort' asc random com 0
     \<and> (\<forall>found cl1. FindIssuesWithOrg c cl0 org query sort' asc = (Inr found, cl1) \<longrightarrow>
          visited (trace (snd (run c rnd cl0 org query sort' asc random com ceiling)))
            = (if random then Shuffle rnd found else found)
          \<and> (\<forall>m \<in> set (logged (trace (snd (run c rnd cl0 org query sort' asc random com ceiling)))).
               \<not> prefix ''Stopping at --ceiling='' m))"
proof (intro conjI allI impI)
  have u: "range_issues c com ceiling len n is st = range_issues c com 0 len n is st"
    for len n "is" st
    using neg by (intro range_issues_unlimited) simp
  show "run c rnd cl0 org query sort' asc random com ceiling
           = run c rnd cl0 org query sort' asc random com 0"
    unfolding run_def u ..
next
  fix found cl1
  assume find: "FindIssuesWithOrg c cl0 org query sort' asc = (Inr found, cl1)"
  define issues where "issues = (if random then Shuffle rnd found else found)"
  define st where "st = range_issues c com ceiling (length issues) 0 issues
                (searched cl1 org query sort' asc found)"
  have snd: "snd (run c rnd cl0 org query sort' asc random com ceiling) = st"
    unfolding run_found [OF find] st_def issues_def by (simp add: Let_def)
  show "visited (trace (snd (run c rnd cl0 org query sort' asc random com ceiling)))
            = (if random then Shuffle rnd found else found)"
    unfolding snd st_def range_issues_visited issues_def using neg by simp
  show "\<forall>m \<in> set (logged (trace (snd (run c rnd cl0 org query sort' asc random com ceiling)))).
               \<not> prefix ''Stopping at --ceiling='' m"
    unfolding snd st_def using neg by (intro range_issues_no_stop) simp_all
qed

theorem run_negative_ceiling_witness:
  "run (recording_client (Inr example_issues) always_ok) draw_zero []
       ''kubernetes'' ''is:pr'' ''updated'' True False (literal_commenter ''hello'') (- 1)
     = run (recording_client (Inr example_issues) always_ok) draw_zero []
       ''kubernetes'' ''is:pr'' ''updated'' True False (literal_commenter ''hello'') 0
   \<and> visited (trace (snd (run (recording_client (Inr example_issues) always_ok) draw_zero []
       ''kubernetes'' ''is:pr'' ''updated'' True False (literal_commenter ''hello'') (- 1))))
     = example_issues"
proof -
  have find: "FindIssuesWithOrg (recording_client (Inr example_issues) always_ok)
      [] ''kubernetes'' ''is:pr'' ''updated'' True = (Inr example_issues, [])"
    by (rule find_recording)
  have neg: "(- 1 :: int) < 0" by simp
  show ?thesis
    using run_negative_ceiling [OF neg, where c = "recording_client (Inr example_issues) always_ok"
      and rnd = draw_zero and ?cl0.0 = "[]" and org = "''kubernetes''" and query = "''is:pr''"
      and sort' = "''updated''" and asc = True and random = False
      and com = "literal_commenter ''hello''", unfolded if_False] find
    by blast
qed

subsection \<open>An item whose URL does not parse\<close>

text \<open>
  C1. An item whose URL fails to parse should give one recorded failure and no call of
  \<open>CreateComment\<close> for that item. The loop records the failure, but does not skip to
  the next item: for the search result of a malformed item followed by a well-formed
  one and the literal comment \<open>hello\<close>, \<open>CreateComment\<close> is called for the malformed
  item with an empty organisation, an empty repository and number 0, before it is called
  for the second item. When the client rejects that call, the malformed item has two
  recorded failures.
\<close>

theorem run_malformed_url_still_comments:
  "created (trace (snd (run (recording_client (Inr [malformed_issue, example_issues ! 1]) always_ok)
       draw_zero [] ''kubernetes'' ''is:pr'' ''updated'' True False (literal_commenter ''hello'') 3)))
     = [([], [], 0, ''hello''), (''kubernetes'', ''test-infra'', 102, ''hello'')]
   \<and> problems (snd (run (recording_client (Inr [malformed_issue, example_issues ! 1]) always_ok)
       draw_zero [] ''kubernetes'' ''is:pr'' ''updated'' True False (literal_commenter ''hello'') 3))
     = [''Failed to parse https://github.com/kubernetes/test-infra/issues/: failed to parse: https://github.com/kubernetes/test-infra/issues/'']
   \<and> problems (snd (run (recording_client (Inr [malformed_issue]) reject_zero)
       draw_zero [] ''kubernetes'' ''is:pr'' ''updated'' True False (literal_commenter ''hello'') 3))
     = [''Failed to parse https://github.com/kubernetes/test-infra/issues/: failed to parse: https://github.com/kubernetes/test-infra/issues/'',
        ''Failed to apply comment to /#0: 404 Not Found'']"
  by code_simp

subsection \<open>A run over two well-formed items\<close>

lemma makeCommenter_literal: "makeCommenter parse comment False = Inr (literal_commenter comment)"
  by (simp add: makeCommenter_def literal_commenter_def fun_eq_iff)

lemma process_item_ok:
  assumes p: "parseHTMLURL (HTMLURL i) = Inr (org, repo, n)"
    and ok: "\<forall>s org repo number body. fst (CreateComment c s org repo number body) = None"
  shows "created (trace (process_item c (literal_commenter comment) i st))
           = created (trace st) @ [(org, repo, n, comment)]
       \<and> problems (process_item c (literal_commenter comment) i st) = problems st
       \<and> cl (process_item c (literal_commenter comment) i st)
           = snd (CreateComment c (cl st) org repo n comment)"
proof -
  have none: "CreateComment c s org repo number body \<noteq> (Some e, cl')"
    for s org repo number body e cl'
    using ok by (metis fst_conv option.distinct(1))
  show ?thesis
    using p
    by (auto simp: item_defs literal_commenter_def none split: prod.splits option.splits)
qed

lemma Shuffle_two: "Shuffle rnd [a, b] = (if rnd 1 mod 2 = 0 then [b, a] else [a, b])"
proof (cases "rnd 1 mod 2 = 0")
  case True
  then have "rnd (Suc 0) mod Suc (Suc 0) = 0"
    by (simp add: numeral_2_eq_2)
  with True show ?thesis
    by (simp add: Shuffle_def Let_def)
next
  case False
  then have "rnd 1 mod 2 = 1"
    by arith
  then have "rnd (Suc 0) mod Suc (Suc 0) = Suc 0"
    by (simp only: One_nat_def numeral_2_eq_2)
  with False show ?thesis
    by (simp add: Shuffle_def Let_def)
qed

lemma range_issues_two:
  "range_issues c com 2 len 0 [a, b] st = process_item c com b (process_item c com a st)"
  by simp

text \<open>
  C6. For the raw query \<open>is:issue label:bug\<close> with the three toggles off and
  \<open>minUpdated\<close> zero, \<open>makeQuery\<close> returns exactly
  \<open>is:issue label:bug archived:false is:open is:unlocked\<close>. With that query, ceiling 2,
  the comment-producing function that \<open>makeCommenter\<close> returns without \<open>--template\<close>,
  and a client whose search finds two items with well-formed URLs and whose
  \<open>CreateComment\<close> succeeds, \<open>run\<close> returns no error and \<open>CreateComment\<close> is called
  once for each of the two items with the configured comment (in the order of the search
  result unless \<open>random\<close> is set). The client receives them: its final state is the
  state after the search taken through \<open>CreateComment\<close> for the one item and then
  through \<open>CreateComment\<close> for the other.
\<close>

theorem end_to_end:
  assumes find: "FindIssuesWithOrg c cl0 org
        ''is:issue label:bug archived:false is:open is:unlocked'' sort' asc = (Inr [i1, i2], cl1)"
    and p1: "parseHTMLURL (HTMLURL i1) = Inr (org1, repo1, n1)"
    and p2: "parseHTMLURL (HTMLURL i2) = Inr (org2, repo2, n2)"
    and ok: "\<forall>s org repo number body. fst (CreateComment c s org repo number body) = None"
  shows "makeQuery now local ''is:issue label:bug'' False False False 0
           = Inr ''is:issue label:bug archived:false is:open is:unlocked''
     \<and> makeCommenter parse comment False = Inr (literal_commenter comment)
     \<and> fst (run c rnd cl0 org ''is:issue label:bug archived:false is:open is:unlocked''
              sort' asc random (literal_commenter comment) 2) = None
     \<and> mset (created (trace (snd (run c rnd cl0 org
              ''is:issue label:bug archived:false is:open is:unlocked''
              sort' asc random (literal_commenter comment) 2))))
         = {#(org1, repo1, n1, comment), (org2, repo2, n2, comment)#}
     \<and> (\<not> random \<longrightarrow>
          created (trace (snd (run c rnd cl0 org
              ''is:issue label:bug archived:false is:open is:unlocked''
              sort' asc random (literal_commenter comment) 2)))
         = [(org1, repo1, n1, comment), (org2, repo2, n2, comment)])
     \<and> cl (snd (run c rnd cl0 org ''is:issue label:bug archived:false is:open is:unlocked''
              sort' asc random (literal_commenter comment) 2))
         = (if random \<and> rnd 1 mod 2 = 0
            then snd (CreateComment c (snd (CreateComment c cl1 org2 repo2 n2 comment))
                        org1 repo1 n1 comment)
            else snd (CreateComment c (snd (CreateComment c cl1 org1 repo1 n1 comment))
                        org2 repo2 n2 comment))"
proof -
  let ?q = "''is:issue label:bug archived:false is:open is:unlocked''"
  let ?com = "literal_commenter comment"
  let ?st0 = "searched cl1 org ?q sort' asc [i1, i2]"
  have q: "makeQuery now local ''is:issue label:bug'' False False False 0 = Inr ?q"
    by (simp add: makeQuery_def errors_New_def)
  have st0: "cl ?st0 = cl1"
    by (simp add: searched_def)
  have fwd: "created (trace (process_item c ?com i2 (process_item c ?com i1 ?st0)))
               = [(org1, repo1, n1, comment), (org2, repo2, n2, comment)]"
       "problems (process_item c ?com i2 (process_item c ?com i1 ?st0)) = []"
       "cl (process_item c ?com i2 (process_item c ?com i1 ?st0))
          = snd (CreateComment c (snd (CreateComment c cl1 org1 repo1 n1 comment))
                   org2 repo2 n2 comment)"
    using process_item_ok [OF p1 ok, of comment ?st0]
      process_item_ok [OF p2 ok, of comment "process_item c ?com i1 ?st0"] st0
    by simp_all
  have bwd: "created (trace (process_item c ?com i1 (process_item c ?com i2 ?st0)))
               = [(org2, repo2, n2, comment), (org1, repo1, n1, comment)]"
       "problems (process_item c ?com i1 (process_item c ?com i2 ?st0)) = []"
       "cl (process_item c ?com i1 (process_item c ?com i2 ?st0))
          = snd (CreateComment c (snd (CreateComment c cl1 org2 repo2 n2 comment))
                   org1 repo1 n1 comment)"
    using process_item_ok [OF p2 ok, of comment ?st0]
      process_item_ok [OF p1 ok, of comment "process_item c ?com i2 ?st0"] st0
    by simp_all
  have r: "run c rnd cl0 org ?q sort' asc random ?com 2 =
    (if random \<and> rnd 1 mod 2 = 0
     then (aggregate (problems (process_item c ?com i1 (process_item c ?com i2 ?st0))),
           process_item c ?com i1 (process_item c ?com i2 ?st0))
     else (aggregate (problems (process_item c ?com i2 (process_item c ?com i1 ?st0))),
           process_item c ?com i2 (process_item c ?com i1 ?st0)))"
    unfolding run_found [OF find] Let_def Shuffle_two
    by (simp add: range_issues_two del: range_issues.simps)
  show ?thesis
    unfolding r using q fwd bwd
    by (simp add: makeCommenter_literal aggregate_def)
qed

theorem end_to_end_witness:
  "makeQuery 1793557800000000000 utc ''is:issue label:bug'' False False False 0
     = Inr ''is:issue label:bug archived:false is:open is:unlocked''
   \<and> fst (run (recording_client (Inr [example_issues ! 0, example_issues ! 1]) always_ok)
            draw_zero [] ''kubernetes'' ''is:issue label:bug archived:false is:open is:unlocked''
            [] False False (literal_commenter ''please triage'') 2) = None
   \<and> created (trace (snd (run (recording_client (Inr [example_issues ! 0, example_issues ! 1])
            always_ok) draw_zero [] ''kubernetes''
            ''is:issue label:bug archived:false is:open is:unlocked''
            [] False False (literal_commenter ''please triage'') 2)))
       = [(''kubernetes'', ''test-infra'', 101, ''please triage''),
          (''kubernetes'', ''test-infra'', 102, ''please triage'')]
   \<and> cl (snd (run (recording_client (Inr [example_issues ! 0, example_issues ! 1])
            always_ok) draw_zero [] ''kubernetes''
            ''is:issue label:bug archived:false is:open is:unlocked''
            [] False False (literal_commenter ''please triage'') 2))
       = [(''kubernetes'', ''test-infra'', 101, ''please triage''),
          (''kubernetes'', ''test-infra'', 102, ''please triage'')]"
proof -
  have find: "FindIssuesWithOrg
      (recording_client (Inr [example_issues ! 0, example_issues ! 1]) always_ok)
      [] ''kubernetes'' ''is:issue label:bug archived:false is:open is:unlocked'' [] False
      = (Inr [example_issues ! 0, example_issues ! 1], [])"
    by (rule find_recording)
  have p1: "parseHTMLURL (HTMLURL (example_issues ! 0)) = Inr (''kubernetes'', ''test-infra'', 101)"
    by code_simp
  have p2: "parseHTMLURL (HTMLURL (example_issues ! 1)) = Inr (''kubernetes'', ''test-infra'', 102)"
    by code_simp
  have ok: "\<forall>s org repo number body.
      fst (CreateComment (recording_client (Inr [example_issues ! 0, example_issues ! 1]) always_ok)
             s org repo number body) = None"
    by (simp add: recording_client_def always_ok_def)
  note w = end_to_end [OF find p1 p2 ok, where now = 1793557800000000000 and local = utc
      and parse = no_templates and rnd = draw_zero and random = False
      and comment = "''please triage''"]
  from w have received:
    "cl (snd (run (recording_client (Inr [example_issues ! 0, example_issues ! 1])
            always_ok) draw_zero [] ''kubernetes''
            ''is:issue label:bug archived:false is:open is:unlocked''
            [] False False (literal_commenter ''please triage'') 2))
       = snd (CreateComment (recording_client (Inr [example_issues ! 0, example_issues ! 1])
            always_ok)
           (snd (CreateComment (recording_client (Inr [example_issues ! 0, example_issues ! 1])
              always_ok) [] ''kubernetes'' ''test-infra'' 101 ''please triage''))
           ''kubernetes'' ''test-infra'' 102 ''please triage'')"
    by (simp only: simp_thms if_False)
  have "snd (CreateComment (recording_client (Inr [example_issues ! 0, example_issues ! 1])
            always_ok)
           (snd (CreateComment (recording_client (Inr [example_issues ! 0, example_issues ! 1])
              always_ok) [] ''kubernetes'' ''test-infra'' 101 ''please triage''))
           ''kubernetes'' ''test-infra'' 102 ''please triage'')
       = [(''kubernetes'', ''test-infra'', 101, ''please triage''),
          (''kubernetes'', ''test-infra'', 102, ''please triage'')]"
    by (simp add: recording_client_def)
  with received w show ?thesis
    by (simp only: simp_thms)
qed

end
